theory Spec2Isabelle
  imports Main "HOL-Library.Word"
begin

section \<open>The common subexpression eliminator of libevmcore\<close>

text \<open>
  The development follows \<^verbatim>\<open>libevmcore/CommonSubexpressionEliminator.h\<close>. The header
  declares the classes \<^verbatim>\<open>CommonSubexpressionEliminator\<close>, \<^verbatim>\<open>SemanticInformation\<close> and
  \<^verbatim>\<open>CSECodeGenerator\<close> and defines one function, the template \<^verbatim>\<open>feedItems\<close>. The
  bodies of all other member functions, the class \<^verbatim>\<open>ExpressionClasses\<close> and the class
  \<^verbatim>\<open>AssemblyItem\<close> live in files that are not part of the sources at hand.
\<close>

subsection \<open>Assembly items\<close>

text \<open>
  Modelled from the spec: the class \<^verbatim>\<open>AssemblyItem\<close> and the instruction table, which
  the header only forward-declares. The specification describes an item as a tagged record,
  one of an opcode, \<^verbatim>\<open>Push(immediate)\<close>, \<^verbatim>\<open>Tag(label)\<close> and \<^verbatim>\<open>PushTag(label)\<close>. The opcodes
  the specification names are constructors of their own, \<open>DUP i\<close> and \<open>SWAP i\<close> stand for
  \<^verbatim>\<open>DUP_i\<close> and \<^verbatim>\<open>SWAP_i\<close>, and every other opcode of the machine is \<open>Other\<close> with its
  opcode number. Immediates are words of the machine, 256 bits wide.
\<close>

datatype Instruction =
    STOP | ADD | MUL | SUB | EQ | AND | OR | XOR
  | POP | MLOAD | MSTORE | SLOAD | SSTORE
  | JUMP | JUMPI | JUMPDEST | RETURN | SUICIDE | INVALID
  | DUP nat | SWAP nat
  | Other nat

datatype AssemblyItem = Operation Instruction | Push "256 word" | Tag nat | PushTag nat

type_synonym AssemblyItems = "AssemblyItem list"

text \<open>
  Modelled from the spec: the errors of the optimizer's error taxonomy that are raised.
\<close>

datatype error = InternalInvariantViolation | StackUnderflow

subsection \<open>Data declared in the header\<close>

text \<open>
  \<^verbatim>\<open>ExpressionClasses::Id\<close> is declared in the missing \<^verbatim>\<open>ExpressionClasses.h\<close>; the
  specification calls it a totally ordered handle, "e.g. a dense integer".
\<close>

type_synonym Id = nat

text \<open>
  \<^verbatim>\<open>struct StoreOperation { Id slot; unsigned sequenceNumber; Id expression; }\<close>.
  The C++ type \<^verbatim>\<open>unsigned\<close> is a 32-bit word whose arithmetic wraps around.
\<close>

record StoreOperation =
  slot :: Id
  sequenceNumber :: "32 word"
  expression :: Id

text \<open>
  The data members of \<^verbatim>\<open>class CommonSubexpressionEliminator\<close>. The type of
  \<^verbatim>\<open>m_expressionClasses\<close> is a parameter here. The stack height is a C++ \<^verbatim>\<open>int\<close>; signed
  overflow is undefined behaviour in C++, and the model follows the mathematical value.
\<close>

record 'c CommonSubexpressionEliminator =
  m_stackHeight :: int
  m_stackElements :: "int \<rightharpoonup> Id"
  m_sequenceNumber :: "32 word"
  m_storageContent :: "Id \<rightharpoonup> Id"
  m_storeOperations :: "StoreOperation list"
  m_expressionClasses :: 'c

subsection \<open>feedItems\<close>

text \<open>
  \<^verbatim>\<open>
  for (; _iterator != _end && !SemanticInformation::breaksBasicBlock(*_iterator); ++_iterator)
      feedItem(*_iterator);
  return _iterator;
  \<close>
  A valid iterator range \<^verbatim>\<open>[_iterator, _end)\<close> is the list of the items it spans, and an
  iterator into the range is the suffix of that list it points at; the empty suffix is
  \<^verbatim>\<open>_end\<close>. The two functions the loop calls, \<^verbatim>\<open>breaksBasicBlock\<close> and \<^verbatim>\<open>feedItem\<close>, are
  only declared in the header and are parameters: \<open>feedItem\<close> updates the eliminator or
  throws, and an exception leaves the loop, since \<^verbatim>\<open>feedItems\<close> catches nothing.
\<close>

fun feedItems ::
  "('i \<Rightarrow> bool) \<Rightarrow> ('i \<Rightarrow> 's \<Rightarrow> 'e + 's) \<Rightarrow> 'i list \<Rightarrow> 's \<Rightarrow> 'e + ('i list \<times> 's)"
where
  "feedItems breaksBasicBlock feedItem [] s = Inr ([], s)"
| "feedItems breaksBasicBlock feedItem (x # xs) s =
     (if breaksBasicBlock x then Inr (x # xs, s)
      else (case feedItem x s of
              Inl e \<Rightarrow> Inl e
            | Inr s' \<Rightarrow> feedItems breaksBasicBlock feedItem xs s'))"

text \<open>
  The reading of the specification: feeding every item of a list in order, with no
  regard to block boundaries.
\<close>

fun feed_each :: "('i \<Rightarrow> 's \<Rightarrow> 'e + 's) \<Rightarrow> 'i list \<Rightarrow> 's \<Rightarrow> 'e + 's" where
  "feed_each feedItem [] s = Inr s"
| "feed_each feedItem (x # xs) s =
     (case feedItem x s of Inl e \<Rightarrow> Inl e | Inr s' \<Rightarrow> feed_each feedItem xs s')"

subsection \<open>SemanticInformation\<close>

text \<open>
  Modelled from the spec: the body of \<^verbatim>\<open>SemanticInformation::breaksBasicBlock\<close>, declared in
  the header as "returns true if the given item starts a new basic block". The
  specification: true for \<^verbatim>\<open>JUMP\<close>, \<^verbatim>\<open>JUMPI\<close>, \<^verbatim>\<open>STOP\<close>, \<^verbatim>\<open>RETURN\<close>, \<^verbatim>\<open>SUICIDE\<close>, \<^verbatim>\<open>INVALID\<close>,
  and any \<^verbatim>\<open>JUMPDEST\<close> or \<^verbatim>\<open>Tag\<close>.
\<close>

fun breaksBasicBlock :: "AssemblyItem \<Rightarrow> bool" where
  "breaksBasicBlock (Operation JUMP) = True"
| "breaksBasicBlock (Operation JUMPI) = True"
| "breaksBasicBlock (Operation STOP) = True"
| "breaksBasicBlock (Operation RETURN) = True"
| "breaksBasicBlock (Operation SUICIDE) = True"
| "breaksBasicBlock (Operation INVALID) = True"
| "breaksBasicBlock (Operation JUMPDEST) = True"
| "breaksBasicBlock (Tag l) = True"
| "breaksBasicBlock item = False"

subsection \<open>The top-level loop\<close>

lemma feedItems_suffix:
  "feedItems brk feed items s = Inr (rest, s') \<Longrightarrow> length rest \<le> length items"
proof (induction items arbitrary: s)
  case Nil
  then show ?case by simp
next
  case (Cons x xs)
  show ?case
  proof (cases "brk x")
    case True
    with Cons.prems show ?thesis by auto
  next
    case False
    with Cons.prems obtain s1 where "feed x s = Inr s1"
      and "feedItems brk feed xs s1 = Inr (rest, s')"
      by (auto split: sum.splits)
    then have "length rest \<le> length xs" using Cons.IH by blast
    then show ?thesis by simp
  qed
qed

text \<open>
  Modelled from the spec: the loop around the eliminator, which is not in the header.
  "Consume items until breaks_basic_block. Run feed and schedule phases. Concatenate
  schedule_output + [boundary_item]. Reset and repeat until input is exhausted." The
  feed phase is \<open>feedItems\<close> from a fresh eliminator \<open>init\<close>; the schedule phase
  \<open>getOptimizedItems\<close> is a parameter.
\<close>

function optimise ::
  "'s \<Rightarrow> (AssemblyItem \<Rightarrow> 's \<Rightarrow> 'e + 's) \<Rightarrow> ('s \<Rightarrow> 'e + AssemblyItems)
    \<Rightarrow> AssemblyItems \<Rightarrow> 'e + AssemblyItems"
where
  "optimise init feedItem getOptimizedItems items =
     (if items = [] then Inr []
      else (case feedItems breaksBasicBlock feedItem items init of
              Inl e \<Rightarrow> Inl e
            | Inr r \<Rightarrow>
               (case getOptimizedItems (snd r) of
                  Inl e \<Rightarrow> Inl e
                | Inr out \<Rightarrow>
                   (case fst r of
                      [] \<Rightarrow> Inr out
                    | b # rest \<Rightarrow>
                       (case optimise init feedItem getOptimizedItems rest of
                          Inl e \<Rightarrow> Inl e
                        | Inr later \<Rightarrow> Inr (out @ [b] @ later))))))"
  by pat_completeness auto
termination
proof (relation "measure (\<lambda>(init, feed, gen, items). length items)", goal_cases)
  case 1
  show ?case by simp
next
  case (2 init feed gen items r out b rest)
  from 2(2) have "feedItems breaksBasicBlock feed items init = Inr (fst r, snd r)" by simp
  then have "length (fst r) \<le> length items" by (rule feedItems_suffix)
  with 2(4) show ?case by simp
qed

declare optimise.simps [simp del]

subsection \<open>Auxiliary definitions for the statements\<close>

text \<open>
  The items the specification lists as block boundaries: \<^verbatim>\<open>JUMP\<close>, \<^verbatim>\<open>JUMPI\<close>, \<^verbatim>\<open>STOP\<close>,
  \<^verbatim>\<open>RETURN\<close>, \<^verbatim>\<open>SUICIDE\<close>, \<^verbatim>\<open>INVALID\<close>, and any \<^verbatim>\<open>JUMPDEST\<close> or \<^verbatim>\<open>Tag\<close>.
\<close>

definition block_boundary_items :: "AssemblyItem set" where
  "block_boundary_items =
     {Operation JUMP, Operation JUMPI, Operation STOP, Operation RETURN,
      Operation SUICIDE, Operation INVALID, Operation JUMPDEST} \<union> range Tag"

text \<open>An instrumented feed that records the items it is given, for concrete runs.\<close>

definition record_item :: "'i \<Rightarrow> 'i list \<Rightarrow> error + 'i list" where
  "record_item x fed = Inr (fed @ [x])"

section \<open>Properties of feedItems\<close>

lemma feedItems_takeWhile:
  "feedItems brk feed items s =
     (case feed_each feed (takeWhile (\<lambda>x. \<not> brk x) items) s of
        Inl e \<Rightarrow> Inl e
      | Inr s' \<Rightarrow> Inr (dropWhile (\<lambda>x. \<not> brk x) items, s'))"
  by (induction items arbitrary: s) (simp_all split: sum.splits)

lemma dropWhile_not_breaks:
  "dropWhile (\<lambda>x. \<not> brk x) items = [] \<or> brk (hd (dropWhile (\<lambda>x. \<not> brk x) items))"
  using hd_dropWhile [of "\<lambda>x. \<not> brk x" items] by auto

text \<open>
  Claim C2. For every range, \<open>feedItems\<close> feeds exactly the items of the longest prefix
  \<open>fed\<close> free of block-breaking items, in order, and returns the iterator \<open>rest\<close> right
  after that prefix: \<open>rest\<close> is the end of the range or points at the first breaking
  item, which is not fed. No fed item breaks a basic block. When a \<open>feedItem\<close> throws,
  the exception is what \<open>feedItems\<close> gives.
\<close>

theorem feedItems_feeds_until_break:
  fixes brk :: "'i \<Rightarrow> bool" and feed :: "'i \<Rightarrow> 's \<Rightarrow> 'e + 's"
  defines "fed items \<equiv> takeWhile (\<lambda>x. \<not> brk x) items"
    and "rest items \<equiv> dropWhile (\<lambda>x. \<not> brk x) items"
  shows "feedItems brk feed items s =
           (case feed_each feed (fed items) s of
              Inl e \<Rightarrow> Inl e
            | Inr s' \<Rightarrow> Inr (rest items, s'))
         \<and> items = fed items @ rest items
         \<and> (\<forall>x \<in> set (fed items). \<not> brk x)
         \<and> (rest items = [] \<or> brk (hd (rest items)))"
  unfolding fed_def rest_def
  using feedItems_takeWhile [of brk feed items s] dropWhile_not_breaks [of brk items]
  by (auto dest: set_takeWhileD)

theorem feedItems_feeds_until_break_witness:
  "feedItems (\<lambda>x. x = (0::nat)) record_item [3, 5, 0, 7, 0] [] = Inr ([0, 7, 0], [3, 5])"
  using feedItems_feeds_until_break [of "\<lambda>x. x = (0::nat)" record_item "[3, 5, 0, 7, 0]" "[]"]
  by (simp add: record_item_def)

text \<open>
  Claim C10. On an empty range \<open>feedItems\<close> returns the iterator it was given (the end
  of the range) without a call of \<open>feedItem\<close>: the eliminator it returns is the one it
  started from, component by component.
\<close>

theorem feedItems_empty_range:
  fixes s :: "('c, 'z) CommonSubexpressionEliminator_scheme"
  shows "\<exists>s'. feedItems brk feed [] s = Inr ([], s')
           \<and> s' = s
           \<and> m_stackHeight s' = m_stackHeight s
           \<and> m_stackElements s' = m_stackElements s
           \<and> m_sequenceNumber s' = m_sequenceNumber s
           \<and> m_storageContent s' = m_storageContent s
           \<and> m_storeOperations s' = m_storeOperations s
           \<and> m_expressionClasses s' = m_expressionClasses s"
  by simp

section \<open>Block boundaries\<close>

lemma breaksBasicBlock_iff:
  "breaksBasicBlock item \<longleftrightarrow> item \<in> block_boundary_items"
proof (cases item)
  case (Operation i)
  then show ?thesis by (cases i) (auto simp: block_boundary_items_def)
qed (auto simp: block_boundary_items_def)

lemma feedItems_at_boundary:
  assumes "\<forall>x \<in> set blk. \<not> brk x" and "brk b"
  shows "feedItems brk feed (blk @ b # rest) s =
           (case feed_each feed blk s of Inl e \<Rightarrow> Inl e | Inr s' \<Rightarrow> Inr (b # rest, s'))"
proof -
  from assms have "takeWhile (\<lambda>x. \<not> brk x) (blk @ b # rest) = blk"
    by (simp add: takeWhile_append2)
  moreover from assms have "dropWhile (\<lambda>x. \<not> brk x) (blk @ b # rest) = b # rest"
    by (simp add: dropWhile_append2)
  ultimately show ?thesis by (simp only: feedItems_takeWhile)
qed

lemma optimise_at_boundary:
  assumes "\<forall>x \<in> set blk. \<not> breaksBasicBlock x" and "breaksBasicBlock b"
  shows "optimise init feed gen (blk @ b # rest) =
           (case feed_each feed blk init of
              Inl e \<Rightarrow> Inl e
            | Inr s \<Rightarrow>
               (case gen s of
                  Inl e \<Rightarrow> Inl e
                | Inr out \<Rightarrow>
                   (case optimise init feed gen rest of
                      Inl e \<Rightarrow> Inl e
                    | Inr later \<Rightarrow> Inr (out @ b # later))))"
  by (subst optimise.simps)
     (simp add: feedItems_at_boundary [OF assms] split: sum.splits)

text \<open>
  Claim C7. \<open>breaksBasicBlock\<close> holds of an item exactly when the item is \<^verbatim>\<open>JUMP\<close>,
  \<^verbatim>\<open>JUMPI\<close>, \<^verbatim>\<open>STOP\<close>, \<^verbatim>\<open>RETURN\<close>, \<^verbatim>\<open>SUICIDE\<close>, \<^verbatim>\<open>INVALID\<close>, \<^verbatim>\<open>JUMPDEST\<close> or a \<^verbatim>\<open>Tag\<close>. For a block
  \<open>blk\<close> free of such items that is followed by such an item \<open>b\<close>, the eliminator is fed
  the items of \<open>blk\<close> and stops with its iterator at \<open>b\<close>, and the top-level loop gives
  the items generated for \<open>blk\<close>, then \<open>b\<close> itself, then what it gives for the items
  after \<open>b\<close>.
\<close>

theorem breaksBasicBlock_boundary:
  assumes "set blk \<inter> block_boundary_items = {}" and "b \<in> block_boundary_items"
  shows "(\<forall>item. breaksBasicBlock item \<longleftrightarrow> item \<in> block_boundary_items)
       \<and> feedItems breaksBasicBlock feed (blk @ b # rest) s =
           (case feed_each feed blk s of Inl e \<Rightarrow> Inl e | Inr s' \<Rightarrow> Inr (b # rest, s'))
       \<and> optimise init feed gen (blk @ b # rest) =
           (case feed_each feed blk init of
              Inl e \<Rightarrow> Inl e
            | Inr s1 \<Rightarrow>
               (case gen s1 of
                  Inl e \<Rightarrow> Inl e
                | Inr out \<Rightarrow>
                   (case optimise init feed gen rest of
                      Inl e \<Rightarrow> Inl e
                    | Inr later \<Rightarrow> Inr (out @ b # later))))"
proof -
  from assms have blk: "\<forall>x \<in> set blk. \<not> breaksBasicBlock x"
    and b: "breaksBasicBlock b"
    by (auto simp: breaksBasicBlock_iff)
  have "\<forall>item. breaksBasicBlock item \<longleftrightarrow> item \<in> block_boundary_items"
    by (simp add: breaksBasicBlock_iff)
  with feedItems_at_boundary [OF blk b, of feed rest s]
    optimise_at_boundary [OF blk b, of init feed gen rest]
  show ?thesis by blast
qed

theorem breaksBasicBlock_boundary_witness:
  "set [Push 1, Operation ADD] \<inter> block_boundary_items = {}
   \<and> Operation JUMP \<in> block_boundary_items
   \<and> feedItems breaksBasicBlock record_item
        ([Push 1, Operation ADD] @ Operation JUMP # [Push 2]) []
      = Inr ([Operation JUMP, Push 2], [Push 1, Operation ADD])
   \<and> optimise [] record_item Inr ([Push 1, Operation ADD] @ Operation JUMP # [Push 2])
      = Inr [Push 1, Operation ADD, Operation JUMP, Push 2]"
proof -
  have blk: "set [Push 1, Operation ADD] \<inter> block_boundary_items = {}"
    by (auto simp: block_boundary_items_def)
  have b: "Operation JUMP \<in> block_boundary_items"
    by (simp add: block_boundary_items_def)
  have last_block: "optimise [] record_item Inr [Push 2] = Inr [Push 2]"
    by (subst optimise.simps) (simp add: record_item_def)
  show ?thesis
    using blk b last_block
      breaksBasicBlock_boundary [OF blk b, of record_item "[Push 2]" "[]" "[]" Inr]
    by (simp add: record_item_def)
qed

end
